theory Spec2Isabelle
  imports Main
begin

section \<open>Parallel tool calls: the type-set extractor, the registry and the decoder\<close>

text \<open>
  A shallow embedding of \<^verbatim>\<open>instructor/dsl/parallel.py\<close>: the function
  \<^verbatim>\<open>get_types_array\<close>, the constructor of \<^verbatim>\<open>ParallelBase\<close> and the
  generator method \<^verbatim>\<open>ParallelBase.from_response\<close>. Exceptions are values of the
  type \<open>error\<close>; the generator is an explicit state that \<open>next_gen\<close> advances.
\<close>

subsection \<open>Exceptions\<close>

text \<open>
  The exceptions the file can raise, each with its message. \<open>KeyError\<close> carries the
  missing key; \<open>ValidationError\<close> is the error of the model layer, with the name of
  the type whose validation failed and the underlying cause; \<open>IndexError\<close> is what a
  subscript \<^verbatim>\<open>[0]\<close> on an empty tuple or list raises; \<open>StopIteration\<close> ends a
  generator.
\<close>

datatype error =
    AssertionError string
  | TypeError string
  | IndexError string
  | KeyError string
  | ValidationError string string
  | StopIteration

subsection \<open>Type hints as \<^verbatim>\<open>typing\<close> sees them\<close>

text \<open>
  What \<^verbatim>\<open>typing.get_origin\<close> can return: \<^verbatim>\<open>collections.abc.Iterable\<close>,
  \<^verbatim>\<open>typing.Union\<close>, \<^verbatim>\<open>types.UnionType\<close>, or any other class (such as
  \<^verbatim>\<open>list\<close>).
\<close>

datatype 't origin = Iterable | Union | UnionType | Other_origin 't

text \<open>
  A type hint is either a plain class \<open>Class t\<close> (no origin, no arguments) or an alias
  \<open>Alias og args\<close> with an origin and a tuple of arguments: \<^verbatim>\<open>Iterable[A]\<close> is
  \<open>Alias Iterable [A]\<close>, \<^verbatim>\<open>Union[A, B]\<close> is \<open>Alias Union [A, B]\<close>, \<^verbatim>\<open>A | B\<close> is
  \<open>Alias UnionType [A, B]\<close>, and the unsubscripted \<^verbatim>\<open>typing.Iterable\<close> is
  \<open>Alias Iterable []\<close>.
\<close>

datatype 't typehint = Class 't | Alias "'t origin" "'t typehint list"

fun get_origin :: "'t typehint \<Rightarrow> 't origin option" where
  "get_origin (Class t) = None"
| "get_origin (Alias og args) = Some og"

fun get_args :: "'t typehint \<Rightarrow> 't typehint list" where
  "get_args (Class t) = []"
| "get_args (Alias og args) = args"

subsection \<open>\<^verbatim>\<open>get_types_array\<close>\<close>

text \<open>
  The f-string of the \<^verbatim>\<open>TypeError\<close> interpolates \<^verbatim>\<open>str(typehint)\<close>; how Python
  prints a type hint is the parameter \<open>str_of\<close>. The subscript
  \<^verbatim>\<open>get_args(typehint)[0]\<close> raises \<^verbatim>\<open>IndexError\<close> on the empty tuple; the model
  evaluates it once, before the two tests that use it.
\<close>

definition get_types_array ::
  "('t typehint \<Rightarrow> string) \<Rightarrow> 't typehint \<Rightarrow> error + 't typehint list" where
  "get_types_array str_of typehint =
     (let should_be_iterable = get_origin typehint in
      if should_be_iterable \<noteq> Some Iterable
      then Inl (TypeError (''Model should be with Iterable instead if '' @ str_of typehint))
      else (case get_args typehint of
              [] \<Rightarrow> Inl (IndexError ''tuple index out of range'')
            | arg0 # _ \<Rightarrow>
                if get_origin arg0 = Some Union then
                  (let the_types = get_args arg0 in Inr the_types)
                else if get_origin arg0 = Some UnionType then
                  (let the_types = get_args arg0 in Inr the_types)
                else Inr (get_args typehint)))"

subsection \<open>Candidate types and the registry\<close>

text \<open>
  A candidate type is a class object that the caller supplies. The file reads its
  \<^verbatim>\<open>__name__\<close> and calls its class method \<^verbatim>\<open>model_validate_json\<close>. What the class
  brings of its own is its name and its validation rules: applied to a raw payload, a
  validation context and a strictness flag, the rules give an instance (\<open>Inr\<close>) or
  the cause for which the payload is rejected (\<open>Inl\<close>).
\<close>

record ('c, 'i) model =
  dunder_name :: string
  validation_rules :: "string \<Rightarrow> 'c option \<Rightarrow> bool option \<Rightarrow> string + 'i"

text \<open>
  Modelled from the spec: the class method \<^verbatim>\<open>model_validate_json(arguments,
  context=..., strict=...)\<close> is inherited from the model layer, which is not among the
  sources. The spec gives a candidate type the capability of "validating a raw
  textual/structured payload into an instance of itself, optionally under a
  caller-supplied validation context and a strictness flag", and says that a
  "validation failure is surfaced as a \<^verbatim>\<open>ValidationError\<close>-equivalent carrying the type
  name and the underlying cause".
\<close>

definition model_validate_json ::
  "('c, 'i) model \<Rightarrow> string \<Rightarrow> 'c option \<Rightarrow> bool option \<Rightarrow> error + 'i" where
  "model_validate_json model args context strict =
     (case validation_rules model args context strict of
        Inl cause \<Rightarrow> Inl (ValidationError (dunder_name model) cause)
      | Inr inst \<Rightarrow> Inr inst)"

record ('c, 'i) ParallelBase =
  models :: "('c, 'i) model list"
  registry :: "string \<rightharpoonup> ('c, 'i) model"

text \<open>
  The dict comprehension \<^verbatim>\<open>{model.__name__: model for model in models}\<close> stores
  the entries from left to right, a later one replacing an earlier one with the same key.
\<close>

definition name_dict :: "('c, 'i) model list \<Rightarrow> (string \<rightharpoonup> ('c, 'i) model)" where
  "name_dict ms = foldl (\<lambda>d model. d(dunder_name model \<mapsto> model)) Map.empty ms"

definition ParallelBase_init ::
  "('c, 'i) model list \<Rightarrow> error + ('c, 'i) ParallelBase" where
  "ParallelBase_init ms =
     (if length ms > 0
      then Inr \<lparr>models = ms, registry = name_dict ms\<rparr>
      else Inl (AssertionError ''At least one model is required''))"

subsection \<open>The response\<close>

text \<open>
  The decoder reads \<^verbatim>\<open>response.choices[0].message.tool_calls\<close> and, of each tool
  call, \<^verbatim>\<open>function.name\<close> and \<^verbatim>\<open>function.arguments\<close>. The field
  \<^verbatim>\<open>function\<close> of a tool call is written \<open>tc_function\<close>.
\<close>

record tool_call_function =
  name :: string
  arguments :: string

record tool_call =
  tc_function :: tool_call_function

record chat_message =
  tool_calls :: "tool_call list"

record choice =
  message :: chat_message

record response =
  choices :: "choice list"

text \<open>
  Modelled from the spec: the enumeration \<^verbatim>\<open>Mode\<close> is imported from
  \<^verbatim>\<open>instructor.function_calls\<close>, which is not among the sources. The decoder
  names one member, \<^verbatim>\<open>Mode.PARALLEL_TOOLS\<close>, "the single supported parallel-calls
  mode"; every other member is \<open>Other_Mode\<close> with its name.
\<close>

datatype Mode = PARALLEL_TOOLS | Other_Mode string

subsection \<open>The generator of \<^verbatim>\<open>from_response\<close>\<close>

text \<open>
  The calls that the body of the generator makes on its collaborators, in the order in
  which it makes them: \<open>Lookup n\<close> is the subscript \<^verbatim>\<open>self.registry[n]\<close>, and
  \<open>Validate n a c s\<close> is the call \<^verbatim>\<open>model_validate_json(a, context=c, strict=s)\<close>
  on the type found under \<open>n\<close>.
\<close>

datatype 'c event =
    Lookup string
  | Validate string string "'c option" "bool option"

text \<open>
  A generator object is created (no line of the body has run), suspended at the
  \<^verbatim>\<open>yield\<close> with the tool calls that the \<^verbatim>\<open>for\<close> loop has not reached yet, or
  closed (it has returned or raised).
\<close>

datatype gen_state = Created | Suspended "tool_call list" | Closed

record ('c, 'i) generator =
  gi_self :: "('c, 'i) ParallelBase"
  gi_response :: response
  gi_mode :: Mode
  gi_validation_context :: "'c option"
  gi_strict :: "bool option"
  gi_state :: gen_state
  gi_trace :: "'c event list"

text \<open>
  \<^verbatim>\<open>from_response\<close> contains a \<^verbatim>\<open>yield\<close>, so calling it binds the arguments
  and returns the generator object; no statement of the body runs, and the call has no
  branch that raises.
\<close>

definition from_response ::
  "('c, 'i) ParallelBase \<Rightarrow> response \<Rightarrow> Mode \<Rightarrow> 'c option \<Rightarrow> bool option
     \<Rightarrow> error + ('c, 'i) generator" where
  "from_response self resp mode validation_context strict =
     Inr \<lparr>gi_self = self, gi_response = resp, gi_mode = mode,
          gi_validation_context = validation_context, gi_strict = strict,
          gi_state = Created, gi_trace = []\<rparr>"

datatype 'i outcome = Yield 'i | Raise error

text \<open>
  One round of the \<^verbatim>\<open>for\<close> loop, from the iterator's position \<open>calls\<close> up to the
  next \<^verbatim>\<open>yield\<close> or exception. An exhausted iterator ends the loop and the
  generator returns, which the consumer sees as \<^verbatim>\<open>StopIteration\<close>.
\<close>

definition loop_round ::
  "('c, 'i) generator \<Rightarrow> tool_call list
     \<Rightarrow> 'i outcome \<times> ('c, 'i) generator" where
  "loop_round g calls =
     (case calls of
        [] \<Rightarrow> (Raise StopIteration, g\<lparr>gi_state := Closed\<rparr>)
      | tool_call # rest \<Rightarrow>
          (let nm = name (tc_function tool_call);
               args = arguments (tc_function tool_call)
           in case registry (gi_self g) nm of
                None \<Rightarrow>
                  (Raise (KeyError nm),
                   g\<lparr>gi_state := Closed, gi_trace := gi_trace g @ [Lookup nm]\<rparr>)
              | Some model \<Rightarrow>
                  (let tr = gi_trace g @
                         [Lookup nm,
                          Validate nm args (gi_validation_context g) (gi_strict g)]
                   in case model_validate_json model args
                             (gi_validation_context g) (gi_strict g) of
                        Inl e \<Rightarrow>
                          (Raise e,
                           g\<lparr>gi_state := Closed, gi_trace := tr\<rparr>)
                      | Inr inst \<Rightarrow>
                          (Yield inst,
                           g\<lparr>gi_state := Suspended rest, gi_trace := tr\<rparr>))))"

text \<open>
  \<^verbatim>\<open>next(g)\<close>. On a created generator the body starts: the assertion on the mode,
  then \<^verbatim>\<open>response.choices[0].message.tool_calls\<close>, where \<^verbatim>\<open>[0]\<close> raises
  \<^verbatim>\<open>IndexError\<close> on an empty list, then the loop. A suspended generator goes on
  with the loop; a closed one raises \<^verbatim>\<open>StopIteration\<close>.
\<close>

definition next_gen ::
  "('c, 'i) generator \<Rightarrow> 'i outcome \<times> ('c, 'i) generator" where
  "next_gen g =
     (case gi_state g of
        Created \<Rightarrow>
          if gi_mode g \<noteq> PARALLEL_TOOLS
          then (Raise (AssertionError ''Mode must be PARALLEL_TOOLS''),
                g\<lparr>gi_state := Closed\<rparr>)
          else (case choices (gi_response g) of
                  [] \<Rightarrow> (Raise (IndexError ''list index out of range''),
                         g\<lparr>gi_state := Closed\<rparr>)
                | choice0 # _ \<Rightarrow> loop_round g (tool_calls (message choice0)))
      | Suspended calls \<Rightarrow> loop_round g calls
      | Closed \<Rightarrow> (Raise StopIteration, g))"

subsection \<open>Consumers\<close>

text \<open>
  A consumer that asks for at most \<open>m\<close> elements: it calls \<^verbatim>\<open>next\<close> until it has
  \<open>m\<close> of them or an exception arrives, and keeps what it has received.
\<close>

fun consume ::
  "nat \<Rightarrow> ('c, 'i) generator
     \<Rightarrow> 'i list \<times> error option \<times> ('c, 'i) generator" where
  "consume 0 g = ([], None, g)"
| "consume (Suc m) g =
     (case next_gen g of
        (Raise e, g') \<Rightarrow> ([], Some e, g')
      | (Yield x, g') \<Rightarrow>
          (case consume m g' of (xs, e, g'') \<Rightarrow> (x # xs, e, g'')))"

text \<open>
  The number of \<^verbatim>\<open>next\<close> calls after which a generator is certainly closed.
\<close>

definition pending :: "('c, 'i) generator \<Rightarrow> nat" where
  "pending g =
     (case gi_state g of
        Created \<Rightarrow>
          (case choices (gi_response g) of
             [] \<Rightarrow> 1
           | choice0 # _ \<Rightarrow> Suc (Suc (length (tool_calls (message choice0)))))
      | Suspended calls \<Rightarrow> Suc (length calls)
      | Closed \<Rightarrow> 0)"

text \<open>
  A consumer that iterates to the end, as a \<^verbatim>\<open>for\<close> loop over the generator does:
  it calls \<^verbatim>\<open>next\<close> until an exception arrives. The result is the elements it
  received, the exception that ended the iteration (\<open>StopIteration\<close> when the generator
  returned) and the generator as it is left.
\<close>

function drain ::
  "('c, 'i) generator \<Rightarrow> 'i list \<times> error \<times> ('c, 'i) generator" where
  "drain g =
     (case next_gen g of
        (Raise e, g') \<Rightarrow> ([], e, g')
      | (Yield x, g') \<Rightarrow>
          (case drain g' of (xs, e, g'') \<Rightarrow> (x # xs, e, g'')))"
  by pat_completeness auto

termination drain
  by (relation "measure pending")
     (auto simp: next_gen_def loop_round_def pending_def Let_def
           split: gen_state.splits if_splits list.splits option.splits sum.splits)

subsection \<open>The decoder over candidate types that keep state\<close>

text \<open>
  \<^verbatim>\<open>model_validate_json\<close> runs the validators that the candidate type declares, and a
  validator is ordinary Python: it can read and write what outlives the call (a module
  global, a class attribute, the contents of a mutable \<^verbatim>\<open>validation_context\<close>). To
  speak of two decodes one after the other, the decoder is embedded a second time with
  that state, of type \<open>'w\<close>, passed through every validation. The rules of a type now
  take the state as they find it and return the state as they leave it.
\<close>

record ('w, 'c, 'i) stateful_model =
  sm_name :: string
  sm_rules :: "'w \<Rightarrow> string \<Rightarrow> 'c option \<Rightarrow> bool option \<Rightarrow> (string + 'i) \<times> 'w"

text \<open>
  Modelled from the spec: \<^verbatim>\<open>model_validate_json\<close> as above, the missing part being
  pydantic's; the error carries the name of the type and the cause, and the state is the
  one the rules leave.
\<close>

definition sm_validate_json ::
  "('w, 'c, 'i) stateful_model \<Rightarrow> string \<Rightarrow> 'c option \<Rightarrow> bool option \<Rightarrow> 'w
     \<Rightarrow> (error + 'i) \<times> 'w" where
  "sm_validate_json model args context strict w =
     (case sm_rules model w args context strict of
        (Inl cause, w') \<Rightarrow> (Inl (ValidationError (sm_name model) cause), w')
      | (Inr inst, w') \<Rightarrow> (Inr inst, w'))"

text \<open>
  The generator object again, without the ghost trace. The registry is the dict of the
  \<^verbatim>\<open>ParallelBase\<close>; \<^verbatim>\<open>from_response\<close>, one round of the loop, \<^verbatim>\<open>next\<close> and the
  consumer that iterates to the end are the definitions above with the state threaded
  through the call of \<^verbatim>\<open>model_validate_json\<close>, the only statement of the body that can
  touch it.
\<close>

record ('w, 'c, 'i) stateful_generator =
  sg_registry :: "string \<rightharpoonup> ('w, 'c, 'i) stateful_model"
  sg_response :: response
  sg_mode :: Mode
  sg_validation_context :: "'c option"
  sg_strict :: "bool option"
  sg_state :: gen_state


definition sg_loop_round ::
  "('w, 'c, 'i) stateful_generator \<Rightarrow> tool_call list \<Rightarrow> 'w
     \<Rightarrow> ('i outcome \<times> ('w, 'c, 'i) stateful_generator) \<times> 'w" where
  "sg_loop_round g calls w =
     (case calls of
        [] \<Rightarrow> ((Raise StopIteration, g\<lparr>sg_state := Closed\<rparr>), w)
      | tool_call # rest \<Rightarrow>
          (let nm = name (tc_function tool_call);
               args = arguments (tc_function tool_call)
           in case sg_registry g nm of
                None \<Rightarrow> ((Raise (KeyError nm), g\<lparr>sg_state := Closed\<rparr>), w)
              | Some model \<Rightarrow>
                  (case sm_validate_json model args
                          (sg_validation_context g) (sg_strict g) w of
                     (Inl e, w') \<Rightarrow> ((Raise e, g\<lparr>sg_state := Closed\<rparr>), w')
                   | (Inr inst, w') \<Rightarrow> ((Yield inst, g\<lparr>sg_state := Suspended rest\<rparr>), w'))))"

definition sg_next ::
  "('w, 'c, 'i) stateful_generator \<Rightarrow> 'w
     \<Rightarrow> ('i outcome \<times> ('w, 'c, 'i) stateful_generator) \<times> 'w" where
  "sg_next g w =
     (case sg_state g of
        Created \<Rightarrow>
          if sg_mode g \<noteq> PARALLEL_TOOLS
          then ((Raise (AssertionError ''Mode must be PARALLEL_TOOLS''),
                 g\<lparr>sg_state := Closed\<rparr>), w)
          else (case choices (sg_response g) of
                  [] \<Rightarrow> ((Raise (IndexError ''list index out of range''),
                          g\<lparr>sg_state := Closed\<rparr>), w)
                | choice0 # _ \<Rightarrow> sg_loop_round g (tool_calls (message choice0)) w)
      | Suspended calls \<Rightarrow> sg_loop_round g calls w
      | Closed \<Rightarrow> ((Raise StopIteration, g), w))"

definition sg_pending :: "('w, 'c, 'i) stateful_generator \<Rightarrow> nat" where
  "sg_pending g =
     (case sg_state g of
        Created \<Rightarrow>
          (case choices (sg_response g) of
             [] \<Rightarrow> 1
           | choice0 # _ \<Rightarrow> Suc (Suc (length (tool_calls (message choice0)))))
      | Suspended calls \<Rightarrow> Suc (length calls)
      | Closed \<Rightarrow> 0)"

function sg_drain ::
  "('w, 'c, 'i) stateful_generator \<Rightarrow> 'w \<Rightarrow> 'i list \<times> error \<times> 'w" where
  "sg_drain g w =
     (case sg_next g w of
        ((Raise e, g'), w') \<Rightarrow> ([], e, w')
      | ((Yield x, g'), w') \<Rightarrow>
          (case sg_drain g' w' of (xs, e, w'') \<Rightarrow> (x # xs, e, w'')))"
  by pat_completeness auto

termination sg_drain
  by (relation "measure (\<lambda>(g, w). sg_pending g)")
     (auto simp: sg_next_def sg_loop_round_def sg_pending_def sm_validate_json_def Let_def
           split: gen_state.splits if_splits list.splits option.splits sum.splits prod.splits)

text \<open>
  A candidate type without state of its own is one whose rules neither read nor write
  the state; the generator of the first embedding becomes a generator of the second.
\<close>

definition with_state :: "('c, 'i) model \<Rightarrow> ('w, 'c, 'i) stateful_model" where
  "with_state model =
     \<lparr>sm_name = dunder_name model,
      sm_rules = (\<lambda>w args context strict. (validation_rules model args context strict, w))\<rparr>"

definition stateful_of :: "('c, 'i) generator \<Rightarrow> ('w, 'c, 'i) stateful_generator" where
  "stateful_of g =
     \<lparr>sg_registry = (\<lambda>n. map_option with_state (registry (gi_self g) n)),
      sg_response = gi_response g, sg_mode = gi_mode g,
      sg_validation_context = gi_validation_context g, sg_strict = gi_strict g,
      sg_state = gi_state g\<rparr>"

subsection \<open>What the claims speak of\<close>

text \<open>
  The shape "iterable of X" in the words of the spec: a generic declaration whose origin
  is \<^verbatim>\<open>Iterable\<close> and which has one argument, the \<open>X\<close>.
\<close>

definition iterable_of_X :: "'t typehint \<Rightarrow> bool" where
  "iterable_of_X typehint =
     (case typehint of Alias Iterable [x] \<Rightarrow> True | _ \<Rightarrow> False)"

text \<open>
  \<open>decodes self ctx strict tc inst\<close>: the name of the call \<open>tc\<close> is a key of the
  registry, and the type found there validates the call's raw arguments, under the
  context \<open>ctx\<close> and the flag \<open>strict\<close>, into the instance \<open>inst\<close>.
\<close>

definition decodes ::
  "('c, 'i) ParallelBase \<Rightarrow> 'c option \<Rightarrow> bool option \<Rightarrow> tool_call \<Rightarrow> 'i \<Rightarrow> bool" where
  "decodes self ctx strict tc inst =
     (case registry self (name (tc_function tc)) of
        None \<Rightarrow> False
      | Some model \<Rightarrow>
          model_validate_json model (arguments (tc_function tc)) ctx strict = Inr inst)"

text \<open>
  The collaborator calls that decoding the calls \<open>calls\<close>, and no other call, makes:
  for each of them, in order, one lookup of its name and one validation of its arguments.
\<close>

definition events_of :: "'c option \<Rightarrow> bool option \<Rightarrow> tool_call list \<Rightarrow> 'c event list" where
  "events_of ctx strict calls =
     concat (map (\<lambda>tc. [Lookup (name (tc_function tc)),
                         Validate (name (tc_function tc)) (arguments (tc_function tc))
                           ctx strict]) calls)"

text \<open>
  The registries for which a decode does not depend on the decodes before it: whatever
  state a validation finds, the result it gives for the same payload, context and
  strictness is the same. The state it leaves may differ.
\<close>

definition stateless :: "(string \<rightharpoonup> ('w, 'c, 'i) stateful_model) \<Rightarrow> bool" where
  "stateless reg \<longleftrightarrow>
     (\<forall>n model. reg n = Some model \<longrightarrow>
        (\<forall>w w' args context strict.
           fst (sm_rules model w args context strict) = fst (sm_rules model w' args context strict)))"

subsection \<open>Sample inputs\<close>

text \<open>
  Concrete candidate types and responses on which the theorems below are evaluated. The
  sample types accept every payload but \<^verbatim>\<open>{}\<close>, return the payload as the instance,
  and report the missing field otherwise. \<open>Weather_v2\<close> is a second class that is also
  named \<^verbatim>\<open>Weather\<close>.
\<close>

definition Weather :: "(nat, string) model" where
  "Weather =
     \<lparr>dunder_name = ''Weather'',
      validation_rules =
        (\<lambda>a c s. if a = ''{}'' then Inl ''city: Field required'' else Inr a)\<rparr>"

definition GoogleSearch :: "(nat, string) model" where
  "GoogleSearch =
     \<lparr>dunder_name = ''GoogleSearch'',
      validation_rules =
        (\<lambda>a c s. if a = ''{}'' then Inl ''query: Field required'' else Inr a)\<rparr>"

definition Weather_v2 :: "(nat, string) model" where
  "Weather_v2 =
     \<lparr>dunder_name = ''Weather'',
      validation_rules =
        (\<lambda>a c s. if a = ''{}'' then Inl ''town: Field required'' else Inr (''v2:'' @ a))\<rparr>"

definition sample_base :: "(nat, string) ParallelBase" where
  "sample_base = \<lparr>models = [Weather, GoogleSearch], registry = name_dict [Weather, GoogleSearch]\<rparr>"

definition mk_call :: "string \<Rightarrow> string \<Rightarrow> tool_call" where
  "mk_call n a = \<lparr>tc_function = \<lparr>name = n, arguments = a\<rparr>\<rparr>"

definition mk_response :: "tool_call list \<Rightarrow> response" where
  "mk_response calls = \<lparr>choices = [\<lparr>message = \<lparr>tool_calls = calls\<rparr>\<rparr>]\<rparr>"





section \<open>Properties\<close>

subsection \<open>The loop of the generator\<close>

text \<open>
  \<open>drain\<close> is unfolded by hand, one \<^verbatim>\<open>next\<close> at a time.
\<close>

declare drain.simps [simp del]

lemma loop_round_state [simp]: "loop_round (g\<lparr>gi_state := s\<rparr>) calls = loop_round g calls"
  by (simp add: loop_round_def Let_def split: list.splits option.splits sum.splits)

lemma events_of_append: "events_of c s (xs @ ys) = events_of c s xs @ events_of c s ys"
  by (simp add: events_of_def)

lemma events_of_Cons:
  "events_of c s (tc # ys) =
     Lookup (name (tc_function tc)) #
     Validate (name (tc_function tc)) (arguments (tc_function tc)) c s # events_of c s ys"
  by (simp add: events_of_def)

lemma next_gen_Suspended_Cons:
  assumes "gi_state g = Suspended (tc # rest)"
    and "decodes (gi_self g) (gi_validation_context g) (gi_strict g) tc inst"
  shows "next_gen g = (Yield inst, g\<lparr>gi_state := Suspended rest,
            gi_trace := gi_trace g @ events_of (gi_validation_context g) (gi_strict g) [tc]\<rparr>)"
  using assms
  by (auto simp: next_gen_def loop_round_def decodes_def events_of_def Let_def split: option.splits)

lemma consume_prefix:
  assumes "list_all2 (decodes self ctx strict) pre insts"
    and "gi_self g = self" and "gi_validation_context g = ctx" and "gi_strict g = strict"
    and "gi_state g = Suspended (pre @ post)"
  shows "consume (length pre) g =
           (insts, None, g\<lparr>gi_state := Suspended post,
              gi_trace := gi_trace g @ events_of ctx strict pre\<rparr>)"
  using assms
proof (induction pre insts arbitrary: g rule: list_all2_induct)
  case Nil
  then have "g\<lparr>gi_state := Suspended post, gi_trace := gi_trace g\<rparr> = g" by simp
  then show ?case by (simp add: events_of_def)
next
  case (Cons tc pre inst insts)
  let ?g' = "g\<lparr>gi_state := Suspended (pre @ post),
            gi_trace := gi_trace g @ events_of ctx strict [tc]\<rparr>"
  have n: "next_gen g = (Yield inst, ?g')"
    using next_gen_Suspended_Cons [of g tc "pre @ post" inst] Cons.hyps(1) Cons.prems by simp
  have "consume (length pre) ?g' = (insts, None, ?g'\<lparr>gi_state := Suspended post,
              gi_trace := gi_trace ?g' @ events_of ctx strict pre\<rparr>)"
    by (rule Cons.IH) (use Cons.prems in simp_all)
  then show ?case using n by (simp add: events_of_Cons events_of_def)
qed

lemma drain_prefix:
  assumes "list_all2 (decodes self ctx strict) pre insts"
    and "gi_self g = self" and "gi_validation_context g = ctx" and "gi_strict g = strict"
    and "gi_state g = Suspended (pre @ post)"
  shows "drain g =
           (case drain (g\<lparr>gi_state := Suspended post,
              gi_trace := gi_trace g @ events_of ctx strict pre\<rparr>)
            of (xs, e, g') \<Rightarrow> (insts @ xs, e, g'))"
  using assms
proof (induction pre insts arbitrary: g rule: list_all2_induct)
  case Nil
  then have "g\<lparr>gi_state := Suspended post, gi_trace := gi_trace g\<rparr> = g" by simp
  then show ?case by (simp add: events_of_def split: prod.splits)
next
  case (Cons tc pre inst insts)
  let ?g' = "g\<lparr>gi_state := Suspended (pre @ post),
            gi_trace := gi_trace g @ events_of ctx strict [tc]\<rparr>"
  have n: "next_gen g = (Yield inst, ?g')"
    using next_gen_Suspended_Cons [of g tc "pre @ post" inst] Cons.hyps(1) Cons.prems by simp
  have "drain ?g' = (case drain (?g'\<lparr>gi_state := Suspended post,
              gi_trace := gi_trace ?g' @ events_of ctx strict pre\<rparr>)
            of (xs, e, g') \<Rightarrow> (insts @ xs, e, g'))"
    by (rule Cons.IH) (use Cons.prems in simp_all)
  then show ?case using n
    by (subst drain.simps) (simp add: events_of_Cons events_of_def split: prod.splits)
qed

lemma next_gen_frame:
  assumes "next_gen g = (out, g')"
  shows "gi_self g' = gi_self g \<and> gi_response g' = gi_response g \<and> gi_mode g' = gi_mode g
           \<and> gi_validation_context g' = gi_validation_context g \<and> gi_strict g' = gi_strict g"
  using assms
  by (auto simp: next_gen_def loop_round_def Let_def
           split: gen_state.splits if_splits list.splits option.splits sum.splits)

lemma drain_frame:
  "drain g = (xs, e, g') \<Longrightarrow>
     gi_self g' = gi_self g \<and> gi_response g' = gi_response g \<and> gi_mode g' = gi_mode g
       \<and> gi_validation_context g' = gi_validation_context g \<and> gi_strict g' = gi_strict g"
proof (induction g arbitrary: xs e g' rule: drain.induct)
  case (1 g)
  obtain out g1 where n: "next_gen g = (out, g1)" by (cases "next_gen g")
  note fr = next_gen_frame [OF n]
  show ?case
  proof (cases out)
    case (Raise err)
    with n "1.prems" have "g' = g1" by (subst (asm) drain.simps) simp
    with fr show ?thesis by simp
  next
    case (Yield x)
    obtain ys e2 g2 where d: "drain g1 = (ys, e2, g2)" by (cases "drain g1") auto
    from n Yield d "1.prems" have "g' = g2" by (subst (asm) drain.simps) simp
    moreover have "gi_self g2 = gi_self g1 \<and> gi_response g2 = gi_response g1 \<and> gi_mode g2 = gi_mode g1
           \<and> gi_validation_context g2 = gi_validation_context g1 \<and> gi_strict g2 = gi_strict g1"
      using "1.IH" [OF n [symmetric] Yield d] .
    ultimately show ?thesis using fr by simp
  qed
qed

lemma next_gen_Created:
  assumes "gi_state g = Created" and "gi_mode g = PARALLEL_TOOLS"
    and "choices (gi_response g) = ch # others"
  shows "next_gen g = next_gen (g\<lparr>gi_state := Suspended (tool_calls (message ch))\<rparr>)"
  using assms by (simp add: next_gen_def)

lemma drain_Created:
  assumes "gi_state g = Created" and "gi_mode g = PARALLEL_TOOLS"
    and "choices (gi_response g) = ch # others"
  shows "drain g = drain (g\<lparr>gi_state := Suspended (tool_calls (message ch))\<rparr>)"
  by (subst drain.simps, subst (2) drain.simps) (simp add: next_gen_Created [OF assms])

lemma consume_Created:
  assumes "gi_state g = Created" and "gi_mode g = PARALLEL_TOOLS"
    and "choices (gi_response g) = ch # others"
  shows "consume (Suc m) g = consume (Suc m) (g\<lparr>gi_state := Suspended (tool_calls (message ch))\<rparr>)"
  by (simp add: next_gen_Created [OF assms])

lemma drain_exhausted:
  "gi_state g = Suspended [] \<Longrightarrow> drain g = ([], StopIteration, g\<lparr>gi_state := Closed\<rparr>)"
  by (subst drain.simps) (simp add: next_gen_def loop_round_def)

lemma next_gen_unknown:
  assumes "gi_state g = Suspended (tc # rest)"
    and "registry (gi_self g) (name (tc_function tc)) = None"
  shows "next_gen g = (Raise (KeyError (name (tc_function tc))),
           g\<lparr>gi_state := Closed, gi_trace := gi_trace g @ [Lookup (name (tc_function tc))]\<rparr>)"
  using assms by (simp add: next_gen_def loop_round_def Let_def)

lemma next_gen_invalid:
  assumes "gi_state g = Suspended (tc # rest)"
    and "registry (gi_self g) (name (tc_function tc)) = Some model"
    and "model_validate_json model (arguments (tc_function tc))
           (gi_validation_context g) (gi_strict g) = Inl e"
  shows "next_gen g = (Raise e,
           g\<lparr>gi_state := Closed,
             gi_trace := gi_trace g @ events_of (gi_validation_context g) (gi_strict g) [tc]\<rparr>)"
  using assms by (simp add: next_gen_def loop_round_def events_of_def Let_def)

lemma next_gen_Closed: "gi_state g = Closed \<Longrightarrow> next_gen g = (Raise StopIteration, g)"
  by (simp add: next_gen_def)

lemma from_response_Inr:
  "from_response self resp mode ctx strict = Inr g \<longleftrightarrow>
     g = \<lparr>gi_self = self, gi_response = resp, gi_mode = mode,
          gi_validation_context = ctx, gi_strict = strict,
          gi_state = Created, gi_trace = []\<rparr>"
  by (auto simp: from_response_def)

lemma consume_running:
  assumes "list_all2 (decodes self ctx strict) pre insts"
    and "gi_self g = self" and "gi_validation_context g = ctx" and "gi_strict g = strict"
    and "gi_mode g = PARALLEL_TOOLS" and "gi_state g = Created"
    and "choices (gi_response g) = ch # others"
    and "tool_calls (message ch) = pre @ post"
    and "pre \<noteq> []"
  shows "consume (length pre) g =
           (insts, None, g\<lparr>gi_state := Suspended post,
              gi_trace := gi_trace g @ events_of ctx strict pre\<rparr>)"
proof -
  from \<open>pre \<noteq> []\<close> obtain k where k: "length pre = Suc k" by (cases pre) auto
  let ?g = "g\<lparr>gi_state := Suspended (pre @ post)\<rparr>"
  have "consume (length pre) g = consume (length pre) ?g"
    unfolding k using consume_Created [of g ch others k] assms by simp
  also have "\<dots> = (insts, None, ?g\<lparr>gi_state := Suspended post,
              gi_trace := gi_trace ?g @ events_of ctx strict pre\<rparr>)"
    by (rule consume_prefix [OF assms(1)]) (use assms in simp_all)
  finally show ?thesis by simp
qed

lemma drain_running:
  assumes "list_all2 (decodes self ctx strict) pre insts"
    and "gi_self g = self" and "gi_validation_context g = ctx" and "gi_strict g = strict"
    and "gi_mode g = PARALLEL_TOOLS" and "gi_state g = Created"
    and "choices (gi_response g) = ch # others"
    and "tool_calls (message ch) = pre @ post"
  shows "drain g =
           (case drain (g\<lparr>gi_state := Suspended post,
              gi_trace := gi_trace g @ events_of ctx strict pre\<rparr>)
            of (xs, e, g') \<Rightarrow> (insts @ xs, e, g'))"
proof -
  let ?g = "g\<lparr>gi_state := Suspended (pre @ post)\<rparr>"
  have "drain g = drain ?g"
    using drain_Created [of g ch others] assms by simp
  also have "\<dots> = (case drain (?g\<lparr>gi_state := Suspended post,
              gi_trace := gi_trace ?g @ events_of ctx strict pre\<rparr>)
            of (xs, e, g') \<Rightarrow> (insts @ xs, e, g'))"
    by (rule drain_prefix [OF assms(1)]) (use assms in simp_all)
  finally show ?thesis by simp
qed

lemma drain_unknown:
  assumes "gi_state g = Suspended (tc # rest)"
    and "registry (gi_self g) (name (tc_function tc)) = None"
  shows "drain g = ([], KeyError (name (tc_function tc)),
           g\<lparr>gi_state := Closed, gi_trace := gi_trace g @ [Lookup (name (tc_function tc))]\<rparr>)"
  by (subst drain.simps) (simp add: next_gen_unknown [OF assms])

lemma drain_invalid:
  assumes "gi_state g = Suspended (tc # rest)"
    and "registry (gi_self g) (name (tc_function tc)) = Some model"
    and "model_validate_json model (arguments (tc_function tc))
           (gi_validation_context g) (gi_strict g) = Inl e"
  shows "drain g = ([], e,
           g\<lparr>gi_state := Closed,
             gi_trace := gi_trace g @ events_of (gi_validation_context g) (gi_strict g) [tc]\<rparr>)"
  by (subst drain.simps) (simp add: next_gen_invalid [OF assms])

lemma next_gen_wrong_mode:
  assumes "gi_state g = Created" and "gi_mode g \<noteq> PARALLEL_TOOLS"
  shows "next_gen g = (Raise (AssertionError ''Mode must be PARALLEL_TOOLS''), g\<lparr>gi_state := Closed\<rparr>)"
  using assms by (simp add: next_gen_def)

subsection \<open>The registry as a function of the supplied types\<close>

lemma name_dict_snoc: "name_dict (ms @ [m]) = (name_dict ms)(dunder_name m \<mapsto> m)"
  by (simp add: name_dict_def)

lemma name_dict_find: "name_dict ms n = find (\<lambda>m. dunder_name m = n) (rev ms)"
proof (induction ms rule: rev_induct)
  case Nil
  then show ?case by (simp add: name_dict_def)
next
  case (snoc m ms)
  then show ?case by (simp add: name_dict_snoc)
qed

lemma dom_name_dict: "dom (name_dict ms) = dunder_name ` set ms"
proof (induction ms rule: rev_induct)
  case Nil
  then show ?case by (simp add: name_dict_def)
next
  case (snoc m ms)
  then show ?case by (auto simp: name_dict_snoc dom_def split: if_splits)
qed

lemma card_dom_name_dict_le: "card (dom (name_dict ms)) \<le> length ms"
  by (metis dom_name_dict card_image_le card_length le_trans List.finite_set)

lemma card_dom_name_dict:
  "card (dom (name_dict ms)) = length ms \<longleftrightarrow> distinct (map dunder_name ms)"
proof -
  have "dom (name_dict ms) = set (map dunder_name ms)" by (simp add: dom_name_dict)
  then show ?thesis by (metis card_distinct distinct_card length_map)
qed

lemma name_dict_distinct:
  assumes "distinct (map dunder_name ms)" and "m \<in> set ms"
  shows "name_dict ms (dunder_name m) = Some m"
  using assms
proof (induction ms rule: rev_induct)
  case Nil
  then show ?case by simp
next
  case (snoc x xs)
  show ?case
  proof (cases "m = x")
    case True
    then show ?thesis by (simp add: name_dict_snoc)
  next
    case False
    with snoc.prems have mem: "m \<in> set xs" and d: "distinct (map dunder_name xs)"
      and nx: "dunder_name x \<notin> dunder_name ` set xs" by auto
    from mem nx have "dunder_name m \<noteq> dunder_name x" by (metis imageI)
    with snoc.IH [OF d mem] show ?thesis by (simp add: name_dict_snoc)
  qed
qed

lemma name_dict_Some_name: "name_dict ms n = Some m \<Longrightarrow> dunder_name m = n \<and> m \<in> set ms"
  by (auto simp: name_dict_find find_Some_iff) (metis length_rev nth_mem set_rev)

lemma ParallelBase_init_Inr:
  "ParallelBase_init ms = Inr self \<Longrightarrow> ms \<noteq> [] \<and> self = \<lparr>models = ms, registry = name_dict ms\<rparr>"
  by (auto simp: ParallelBase_init_def split: if_splits)

subsection \<open>The sample inputs\<close>

lemma sample_base_registry:
  "registry sample_base ''Weather'' = Some Weather"
  "registry sample_base ''GoogleSearch'' = Some GoogleSearch"
  "registry sample_base ''Unknown'' = None"
  by (simp_all add: sample_base_def name_dict_def Weather_def GoogleSearch_def)

lemma sample_decodes_Paris:
  "list_all2 (decodes sample_base ctx strict) [mk_call ''Weather'' ''Paris''] [''Paris'']"
  by (simp add: decodes_def mk_call_def sample_base_registry)
     (simp add: model_validate_json_def Weather_def)

lemma choices_mk_response:
  "choices (mk_response calls) = \<lparr>message = \<lparr>tool_calls = calls\<rparr>\<rparr> # []"
  by (simp add: mk_response_def)

lemma sample_base_init: "ParallelBase_init [Weather, GoogleSearch] = Inr sample_base"
  by (simp add: ParallelBase_init_def sample_base_def)

subsection \<open>The guard of the extractor\<close>

lemma get_types_array_not_iterable:
  "get_origin typehint \<noteq> Some Iterable \<Longrightarrow>
     get_types_array str_of typehint =
       Inl (TypeError (''Model should be with Iterable instead if '' @ str_of typehint))"
  by (simp add: get_types_array_def)

lemma iterable_of_X_origin: "iterable_of_X typehint \<Longrightarrow> get_origin typehint = Some Iterable"
  by (auto simp: iterable_of_X_def split: typehint.splits origin.splits list.splits)

subsection \<open>The decoder over candidate types that keep state\<close>

declare sg_drain.simps [simp del]






text \<open>
  On candidate types without state the second embedding is the first one.
\<close>

lemma sm_validate_json_with_state:
  "sm_validate_json (with_state model) args context strict w
     = (model_validate_json model args context strict, w)"
  by (simp add: sm_validate_json_def model_validate_json_def with_state_def split: sum.splits)

lemma sg_loop_round_stateful_of:
  "sg_loop_round (stateful_of g) calls w
     = ((fst (loop_round g calls), stateful_of (snd (loop_round g calls))), w)"
  by (auto simp: sg_loop_round_def loop_round_def stateful_of_def Let_def
        sm_validate_json_with_state split: list.splits option.splits sum.splits)

lemma sg_next_stateful_of:
  "sg_next (stateful_of g) w = ((fst (next_gen g), stateful_of (snd (next_gen g))), w)"
proof -
  have s: "\<And>st. (stateful_of g)\<lparr>sg_state := st\<rparr> = stateful_of (g\<lparr>gi_state := st\<rparr>)"
    by (simp add: stateful_of_def)
  show ?thesis
    unfolding sg_next_def next_gen_def
    by (auto simp: sg_loop_round_stateful_of s split: gen_state.splits list.splits)
       (simp_all add: stateful_of_def)
qed

lemma sg_drain_stateful_of:
  "sg_drain (stateful_of g) w = (fst (drain g), fst (snd (drain g)), w)"
proof (induction g rule: drain.induct)
  case (1 g)
  obtain out g1 where n: "next_gen g = (out, g1)" by (cases "next_gen g")
  then have sn: "sg_next (stateful_of g) w = ((out, stateful_of g1), w)"
    by (simp add: sg_next_stateful_of)
  show ?case
  proof (cases out)
    case (Raise e)
    with n sn show ?thesis by (subst sg_drain.simps, subst drain.simps, subst (2) drain.simps) simp
  next
    case (Yield x)
    have ih: "sg_drain (stateful_of g1) w = (fst (drain g1), fst (snd (drain g1)), w)"
      by (rule "1.IH" [OF n [symmetric] Yield])
    have a: "sg_drain (stateful_of g) w = (x # fst (drain g1), fst (snd (drain g1)), w)"
      using sn Yield ih by (subst sg_drain.simps) simp
    have b: "drain g = (case drain g1 of (xs, e, g'') \<Rightarrow> (x # xs, e, g''))"
      using n Yield by (subst drain.simps) simp
    show ?thesis unfolding a b by (simp split: prod.splits)
  qed
qed

lemma stateless_stateful_of: "stateless (sg_registry (stateful_of g))"
  by (auto simp: stateless_def stateful_of_def with_state_def)


section \<open>The claims\<close>

subsection \<open>The type-set extractor\<close>

text \<open>
  Claim C2. For a type hint \<^verbatim>\<open>Iterable[U]\<close> where \<open>U\<close> is a union with the members
  \<open>ts\<close>, written with \<^verbatim>\<open>typing.Union\<close> or with the \<^verbatim>\<open>|\<close> operator,
  \<open>get_types_array\<close> returns exactly \<open>ts\<close>, in the declared order. For
  \<^verbatim>\<open>Iterable[T]\<close> with a single argument \<open>T\<close> that is not a union it returns the
  one-element tuple \<open>(T,)\<close>, and a union whose only member is \<open>T\<close> gives the same
  result through the union branch.
\<close>

theorem get_types_array_union_members:
  "get_types_array str_of (Alias Iterable [Alias Union ts]) = Inr ts
   \<and> get_types_array str_of (Alias Iterable [Alias UnionType ts]) = Inr ts
   \<and> (get_origin T \<noteq> Some Union \<and> get_origin T \<noteq> Some UnionType \<longrightarrow>
        get_types_array str_of (Alias Iterable [T]) = Inr [T]
        \<and> get_types_array str_of (Alias Iterable [Alias Union [T]]) =
            get_types_array str_of (Alias Iterable [T])
        \<and> get_types_array str_of (Alias Iterable [Alias UnionType [T]]) =
            get_types_array str_of (Alias Iterable [T]))"
  by (simp add: get_types_array_def)

theorem get_types_array_union_members_witness:
  "get_types_array (\<lambda>_. '''') (Alias Iterable [Alias Union [Class ''A'', Class ''B'', Class ''C'']])
     = Inr [Class ''A'', Class ''B'', Class ''C'']
   \<and> get_types_array (\<lambda>_. '''') (Alias Iterable [Alias UnionType [Class ''A'', Class ''B'']])
     = Inr [Class ''A'', Class ''B'']
   \<and> get_origin (Class ''A'') \<noteq> Some Union \<and> get_origin (Class ''A'') \<noteq> Some UnionType
   \<and> get_types_array (\<lambda>_. '''') (Alias Iterable [Class ''A'']) = Inr [Class ''A'']
   \<and> get_types_array (\<lambda>_. '''') (Alias Iterable [Alias Union [Class ''A'']]) = Inr [Class ''A'']
   \<and> get_types_array (\<lambda>_. '''') (Alias Iterable [Alias UnionType [Class ''A'']]) = Inr [Class ''A'']"
  using get_types_array_union_members [of "\<lambda>_. ''''" "[Class ''A'', Class ''B'', Class ''C'']" "Class ''A''"]
    get_types_array_union_members [of "\<lambda>_. ''''" "[Class ''A'', Class ''B'']" "Class ''A''"]
  by simp

text \<open>
  Claim C3 is about every type hint that is not a generic declaration of the shape
  "iterable of X". The guard of \<open>get_types_array\<close> tests the origin only. The
  unsubscripted \<^verbatim>\<open>typing.Iterable\<close> has the origin \<^verbatim>\<open>Iterable\<close> and no argument: it
  is not of the shape \<open>iterable_of_X\<close>, it passes the guard, and the subscript
  \<^verbatim>\<open>get_args(typehint)[0]\<close> raises \<^verbatim>\<open>IndexError\<close>, not the \<^verbatim>\<open>TypeError\<close> that
  names the declaration.
\<close>

theorem get_types_array_bare_iterable:
  "\<not> iterable_of_X (Alias Iterable [])
   \<and> get_origin (Alias Iterable []) = Some Iterable
   \<and> get_types_array str_of (Alias Iterable []) = Inl (IndexError ''tuple index out of range'')
   \<and> get_types_array str_of (Alias Iterable []) \<noteq>
       Inl (TypeError (''Model should be with Iterable instead if '' @ str_of (Alias Iterable [])))"
  by (simp add: get_types_array_def iterable_of_X_def)

subsection \<open>Construction of the registry\<close>

text \<open>
  Claim C4. The constructor of \<^verbatim>\<open>ParallelBase\<close> fails with an
  \<^verbatim>\<open>AssertionError\<close> when no candidate type is supplied. With \<open>k \<ge> 1\<close> types whose
  names are pairwise distinct it succeeds: the registry has exactly \<open>k\<close> keys, the
  names of the types, each bound to the type that bears it, and \<open>models\<close> is the tuple
  of the supplied types in their order.
\<close>

theorem ParallelBase_init_registry:
  "ParallelBase_init ([] :: ('c, 'i) model list) = Inl (AssertionError ''At least one model is required'')
   \<and> (ms \<noteq> [] \<and> distinct (map dunder_name ms) \<longrightarrow>
        (\<exists>self. ParallelBase_init ms = Inr self
           \<and> models self = ms
           \<and> dom (registry self) = dunder_name ` set ms
           \<and> card (dom (registry self)) = length ms
           \<and> (\<forall>m \<in> set ms. registry self (dunder_name m) = Some m)))"
proof (intro conjI impI)
  show "ParallelBase_init ([] :: ('c, 'i) model list) = Inl (AssertionError ''At least one model is required'')"
    by (simp add: ParallelBase_init_def)
next
  assume a: "ms \<noteq> [] \<and> distinct (map dunder_name ms)"
  let ?self = "\<lparr>models = ms, registry = name_dict ms\<rparr>"
  have "ParallelBase_init ms = Inr ?self" using a by (simp add: ParallelBase_init_def)
  moreover have "models ?self = ms" by simp
  moreover have "dom (registry ?self) = dunder_name ` set ms" by (simp add: dom_name_dict)
  moreover have "card (dom (registry ?self)) = length ms" using a by (simp add: card_dom_name_dict)
  moreover have "\<forall>m \<in> set ms. registry ?self (dunder_name m) = Some m"
    using a by (simp add: name_dict_distinct)
  ultimately show "\<exists>self. ParallelBase_init ms = Inr self
           \<and> models self = ms
           \<and> dom (registry self) = dunder_name ` set ms
           \<and> card (dom (registry self)) = length ms
           \<and> (\<forall>m \<in> set ms. registry self (dunder_name m) = Some m)" by blast
qed

theorem ParallelBase_init_registry_witness:
  "ParallelBase_init ([] :: (nat, string) model list) = Inl (AssertionError ''At least one model is required'')
   \<and> [Weather, GoogleSearch] \<noteq> [] \<and> distinct (map dunder_name [Weather, GoogleSearch])
   \<and> (\<exists>self. ParallelBase_init [Weather, GoogleSearch] = Inr self
           \<and> models self = [Weather, GoogleSearch]
           \<and> dom (registry self) = dunder_name ` set [Weather, GoogleSearch]
           \<and> card (dom (registry self)) = length [Weather, GoogleSearch]
           \<and> (\<forall>m \<in> set [Weather, GoogleSearch]. registry self (dunder_name m) = Some m))"
proof -
  have d: "[Weather, GoogleSearch] \<noteq> [] \<and> distinct (map dunder_name [Weather, GoogleSearch])"
    by (simp add: Weather_def GoogleSearch_def)
  with ParallelBase_init_registry [of "[Weather, GoogleSearch]"] show ?thesis by blast
qed

text \<open>
  Claim C9. When two of the supplied types share a name, the constructor still succeeds:
  every name is bound to the last supplied type that bears it, the registry has fewer
  entries than there are types, and \<open>models\<close> still holds every supplied type in order.
\<close>

theorem ParallelBase_init_duplicate_names:
  assumes "\<not> distinct (map dunder_name ms)"
  shows "\<exists>self. ParallelBase_init ms = Inr self
           \<and> models self = ms
           \<and> (\<forall>n. registry self n = find (\<lambda>m. dunder_name m = n) (rev ms))
           \<and> card (dom (registry self)) < length ms"
proof -
  from assms have ne: "ms \<noteq> []" by auto
  have "card (dom (name_dict ms)) \<noteq> length ms" using assms by (simp add: card_dom_name_dict)
  with card_dom_name_dict_le [of ms] have "card (dom (name_dict ms)) < length ms" by simp
  with ne show ?thesis by (simp add: ParallelBase_init_def name_dict_find)
qed

theorem ParallelBase_init_duplicate_names_witness:
  "\<not> distinct (map dunder_name [Weather, GoogleSearch, Weather_v2])
   \<and> (\<exists>self. ParallelBase_init [Weather, GoogleSearch, Weather_v2] = Inr self
         \<and> models self = [Weather, GoogleSearch, Weather_v2]
         \<and> registry self ''Weather'' = Some Weather_v2
         \<and> registry self ''GoogleSearch'' = Some GoogleSearch
         \<and> card (dom (registry self)) < 3)"
proof -
  have d: "\<not> distinct (map dunder_name [Weather, GoogleSearch, Weather_v2])"
    by (simp add: Weather_def GoogleSearch_def Weather_v2_def)
  from ParallelBase_init_duplicate_names [OF d] obtain self where
    s: "ParallelBase_init [Weather, GoogleSearch, Weather_v2] = Inr self"
       "models self = [Weather, GoogleSearch, Weather_v2]"
       "\<forall>n. registry self n = find (\<lambda>m. dunder_name m = n) (rev [Weather, GoogleSearch, Weather_v2])"
       "card (dom (registry self)) < length [Weather, GoogleSearch, Weather_v2]"
    by blast
  have "registry self ''Weather'' = Some Weather_v2" "registry self ''GoogleSearch'' = Some GoogleSearch"
    using s(3) by (simp_all add: Weather_def GoogleSearch_def Weather_v2_def)
  with d s show ?thesis by simp
qed

subsection \<open>The decoder\<close>

text \<open>
  Claim C1. Let the calls of the response be \<open>pre @ post\<close>, where every call of
  \<open>pre\<close> names a key of the registry and carries a payload that the type found there
  validates, \<open>insts\<close> being the instances, call by call. A consumer that stops after
  \<open>length pre\<close> elements has received exactly \<open>insts\<close>, in the order of the calls, and
  the decoder has looked up and validated the calls of \<open>pre\<close> and no other: each payload
  was validated against the type registered under the call's name, with
  \<open>validation_context\<close> and \<open>strict\<close> as they were passed, and the calls of \<open>post\<close>,
  whatever they are, are still waiting. When all calls are of this kind (\<open>post = []\<close>),
  iterating to the end yields one instance per call and then stops.
\<close>

theorem from_response_decodes_in_order:
  assumes "choices resp = ch # others"
    and "tool_calls (message ch) = pre @ post"
    and "list_all2 (decodes self ctx strict) pre insts"
  shows "\<exists>g. from_response self resp PARALLEL_TOOLS ctx strict = Inr g
           \<and> (\<exists>g'. consume (length pre) g = (insts, None, g')
                  \<and> gi_trace g' = events_of ctx strict pre
                  \<and> (pre \<noteq> [] \<longrightarrow> gi_state g' = Suspended post))
           \<and> (post = [] \<longrightarrow>
                (\<exists>g'. drain g = (insts, StopIteration, g')
                   \<and> gi_trace g' = events_of ctx strict pre \<and> gi_state g' = Closed))"
proof -
  let ?g = "\<lparr>gi_self = self, gi_response = resp, gi_mode = PARALLEL_TOOLS,
          gi_validation_context = ctx, gi_strict = strict,
          gi_state = Created, gi_trace = []\<rparr>"
  have g: "from_response self resp PARALLEL_TOOLS ctx strict = Inr ?g"
    by (simp add: from_response_def)
  have c: "\<exists>g'. consume (length pre) ?g = (insts, None, g')
                  \<and> gi_trace g' = events_of ctx strict pre
                  \<and> (pre \<noteq> [] \<longrightarrow> gi_state g' = Suspended post)"
  proof (cases "pre = []")
    case True
    with assms(3) show ?thesis by (simp add: events_of_def)
  next
    case False
    have "consume (length pre) ?g = (insts, None, ?g\<lparr>gi_state := Suspended post,
              gi_trace := gi_trace ?g @ events_of ctx strict pre\<rparr>)"
      by (rule consume_running [OF assms(3) _ _ _ _ _ _ assms(2) False]) (use assms in simp_all)
    then show ?thesis by simp
  qed
  have d: "post = [] \<longrightarrow> (\<exists>g'. drain ?g = (insts, StopIteration, g')
                   \<and> gi_trace g' = events_of ctx strict pre \<and> gi_state g' = Closed)"
  proof
    assume p: "post = []"
    have "drain ?g = (case drain (?g\<lparr>gi_state := Suspended post,
              gi_trace := gi_trace ?g @ events_of ctx strict pre\<rparr>)
            of (xs, e, g') \<Rightarrow> (insts @ xs, e, g'))"
      by (rule drain_running [OF assms(3) _ _ _ _ _ _ assms(2)]) (use assms in simp_all)
    then show "\<exists>g'. drain ?g = (insts, StopIteration, g')
                   \<and> gi_trace g' = events_of ctx strict pre \<and> gi_state g' = Closed"
      using p by (simp add: drain_exhausted)
  qed
  from g c d show ?thesis by blast
qed

theorem from_response_decodes_in_order_witness:
  "(\<exists>g. from_response sample_base
           (mk_response [mk_call ''Weather'' ''Paris'', mk_call ''GoogleSearch'' ''Tokyo''])
           PARALLEL_TOOLS (Some 7) (Some True) = Inr g
        \<and> (\<exists>g'. drain g = ([''Paris'', ''Tokyo''], StopIteration, g')
              \<and> gi_trace g' = [Lookup ''Weather'', Validate ''Weather'' ''Paris'' (Some 7) (Some True),
                                Lookup ''GoogleSearch'', Validate ''GoogleSearch'' ''Tokyo'' (Some 7) (Some True)]))
   \<and> (\<exists>g. from_response sample_base
           (mk_response [mk_call ''Weather'' ''Paris'', mk_call ''Unknown'' ''Tokyo''])
           PARALLEL_TOOLS (Some 7) (Some True) = Inr g
        \<and> (\<exists>g'. consume 1 g = ([''Paris''], None, g')
              \<and> gi_trace g' = [Lookup ''Weather'', Validate ''Weather'' ''Paris'' (Some 7) (Some True)]
              \<and> gi_state g' = Suspended [mk_call ''Unknown'' ''Tokyo'']))"
proof -
  have w: "registry sample_base ''Weather'' = Some Weather"
    and s: "registry sample_base ''GoogleSearch'' = Some GoogleSearch"
    by (simp_all add: sample_base_def name_dict_def Weather_def GoogleSearch_def)
  have a: "list_all2 (decodes sample_base (Some 7) (Some True))
             [mk_call ''Weather'' ''Paris'', mk_call ''GoogleSearch'' ''Tokyo''] [''Paris'', ''Tokyo'']"
    by (simp add: decodes_def mk_call_def w s)
       (simp add: model_validate_json_def Weather_def GoogleSearch_def)
  have b: "list_all2 (decodes sample_base (Some 7) (Some True))
             [mk_call ''Weather'' ''Paris''] [''Paris'']"
    by (simp add: decodes_def mk_call_def w)
       (simp add: model_validate_json_def Weather_def)
  have 1: "choices (mk_response [mk_call ''Weather'' ''Paris'', mk_call ''GoogleSearch'' ''Tokyo''])
             = \<lparr>message = \<lparr>tool_calls = [mk_call ''Weather'' ''Paris'', mk_call ''GoogleSearch'' ''Tokyo'']\<rparr>\<rparr> # []"
    by (simp add: mk_response_def)
  have 2: "choices (mk_response [mk_call ''Weather'' ''Paris'', mk_call ''Unknown'' ''Tokyo''])
             = \<lparr>message = \<lparr>tool_calls = [mk_call ''Weather'' ''Paris'', mk_call ''Unknown'' ''Tokyo'']\<rparr>\<rparr> # []"
    by (simp add: mk_response_def)
  show ?thesis
    using from_response_decodes_in_order [OF 1 _ a, where post = "[]"]
      from_response_decodes_in_order [OF 2 _ b, where post = "[mk_call ''Unknown'' ''Tokyo'']"]
    by (auto simp add: events_of_def mk_call_def simp del: consume.simps)
qed

text \<open>
  Claim C5, as stated, asks that the decode operation fail immediately on a mode other
  than \<^verbatim>\<open>PARALLEL_TOOLS\<close>. The call of \<^verbatim>\<open>from_response\<close> itself does not fail: it
  returns the generator, whose body has not started.
\<close>

theorem from_response_wrong_mode_counterexample:
  "from_response sample_base (mk_response [mk_call ''Weather'' ''Paris'']) (Other_Mode ''TOOLS'') None None
     = Inr \<lparr>gi_self = sample_base, gi_response = mk_response [mk_call ''Weather'' ''Paris''],
            gi_mode = Other_Mode ''TOOLS'', gi_validation_context = None, gi_strict = None,
            gi_state = Created, gi_trace = []\<rparr>
   \<and> from_response sample_base (mk_response [mk_call ''Weather'' ''Paris'']) (Other_Mode ''TOOLS'') None None
     \<noteq> Inl (AssertionError ''Mode must be PARALLEL_TOOLS'')"
  by (simp add: from_response_def)

text \<open>
  Claim C5, amended. For every mode other than \<^verbatim>\<open>PARALLEL_TOOLS\<close>, the first advance of
  the sequence that the decode operation returned fails with the assertion error, for
  every response (also one without choices, whose calls could not even be read): no call
  is looked up or validated, no instance is yielded, and the sequence is closed.
\<close>

theorem from_response_wrong_mode_first_advance:
  assumes "mode \<noteq> PARALLEL_TOOLS"
    and "from_response self resp mode ctx strict = Inr g"
  shows "next_gen g = (Raise (AssertionError ''Mode must be PARALLEL_TOOLS''), g\<lparr>gi_state := Closed\<rparr>)
         \<and> drain g = ([], AssertionError ''Mode must be PARALLEL_TOOLS'', g\<lparr>gi_state := Closed\<rparr>)
         \<and> gi_trace (g\<lparr>gi_state := Closed\<rparr>) = []"
proof -
  from assms(2) have s: "gi_state g = Created" and m: "gi_mode g = mode" and t: "gi_trace g = []"
    by (auto simp: from_response_def)
  from s m assms(1) have n: "next_gen g =
      (Raise (AssertionError ''Mode must be PARALLEL_TOOLS''), g\<lparr>gi_state := Closed\<rparr>)"
    by (simp add: next_gen_wrong_mode)
  moreover from n have "drain g = ([], AssertionError ''Mode must be PARALLEL_TOOLS'', g\<lparr>gi_state := Closed\<rparr>)"
    by (subst drain.simps) simp
  ultimately show ?thesis using t by simp
qed

theorem from_response_wrong_mode_first_advance_witness:
  "Other_Mode ''TOOLS'' \<noteq> PARALLEL_TOOLS
   \<and> (\<exists>g. from_response sample_base \<lparr>choices = []\<rparr> (Other_Mode ''TOOLS'') None None = Inr g
        \<and> fst (next_gen g) = Raise (AssertionError ''Mode must be PARALLEL_TOOLS'')
        \<and> fst (drain g) = []
        \<and> fst (snd (drain g)) = AssertionError ''Mode must be PARALLEL_TOOLS''
        \<and> gi_trace (snd (snd (drain g))) = [])"
proof -
  have m: "Other_Mode ''TOOLS'' \<noteq> PARALLEL_TOOLS" by simp
  obtain g where g: "from_response sample_base \<lparr>choices = []\<rparr> (Other_Mode ''TOOLS'') None None = Inr g"
    by (simp add: from_response_def)
  from from_response_wrong_mode_first_advance [OF m g] m g show ?thesis by auto
qed

text \<open>
  Claim C10. For every mode other than \<^verbatim>\<open>PARALLEL_TOOLS\<close>, calling
  \<^verbatim>\<open>from_response\<close> raises nothing and returns the generator in its created state. A
  consumer that never advances it sees no error; the first advance raises the assertion
  error, and however many elements the consumer asks for, it receives none: the generator
  is closed and every later advance raises \<^verbatim>\<open>StopIteration\<close>.
\<close>

theorem from_response_wrong_mode_deferred:
  assumes "mode \<noteq> PARALLEL_TOOLS"
  shows "\<exists>g. from_response self resp mode ctx strict = Inr g
           \<and> gi_state g = Created
           \<and> consume 0 g = ([], None, g)
           \<and> (\<forall>m. \<exists>g'. consume (Suc m) g =
                          ([], Some (AssertionError ''Mode must be PARALLEL_TOOLS''), g')
                       \<and> gi_state g' = Closed
                       \<and> next_gen g' = (Raise StopIteration, g'))"
proof -
  let ?g = "\<lparr>gi_self = self, gi_response = resp, gi_mode = mode,
          gi_validation_context = ctx, gi_strict = strict,
          gi_state = Created, gi_trace = []\<rparr>"
  have g: "from_response self resp mode ctx strict = Inr ?g" by (simp add: from_response_def)
  have n: "next_gen ?g = (Raise (AssertionError ''Mode must be PARALLEL_TOOLS''), ?g\<lparr>gi_state := Closed\<rparr>)"
    using assms by (simp add: next_gen_wrong_mode)
  have "\<forall>m. \<exists>g'. consume (Suc m) ?g = ([], Some (AssertionError ''Mode must be PARALLEL_TOOLS''), g')
                       \<and> gi_state g' = Closed \<and> next_gen g' = (Raise StopIteration, g')"
    using n by (simp add: next_gen_Closed)
  with g show ?thesis by simp
qed

theorem from_response_wrong_mode_deferred_witness:
  "Other_Mode ''JSON'' \<noteq> PARALLEL_TOOLS
   \<and> (\<exists>g. from_response sample_base (mk_response [mk_call ''Weather'' ''Paris''])
             (Other_Mode ''JSON'') None None = Inr g
        \<and> gi_state g = Created
        \<and> consume 0 g = ([], None, g)
        \<and> (\<exists>g'. consume 3 g = ([], Some (AssertionError ''Mode must be PARALLEL_TOOLS''), g')
               \<and> gi_state g' = Closed \<and> next_gen g' = (Raise StopIteration, g')))"
proof -
  have m: "Other_Mode ''JSON'' \<noteq> PARALLEL_TOOLS" by simp
  from from_response_wrong_mode_deferred [OF m, of sample_base "mk_response [mk_call ''Weather'' ''Paris'']" None None]
  obtain g where g: "from_response sample_base (mk_response [mk_call ''Weather'' ''Paris''])
             (Other_Mode ''JSON'') None None = Inr g" "gi_state g = Created" "consume 0 g = ([], None, g)"
     and a: "\<forall>m. \<exists>g'. consume (Suc m) g = ([], Some (AssertionError ''Mode must be PARALLEL_TOOLS''), g')
                       \<and> gi_state g' = Closed \<and> next_gen g' = (Raise StopIteration, g')"
    by blast
  from a have "\<exists>g'. consume (Suc 2) g = ([], Some (AssertionError ''Mode must be PARALLEL_TOOLS''), g')
                       \<and> gi_state g' = Closed \<and> next_gen g' = (Raise StopIteration, g')" by blast
  then have "\<exists>g'. consume 3 g = ([], Some (AssertionError ''Mode must be PARALLEL_TOOLS''), g')
                       \<and> gi_state g' = Closed \<and> next_gen g' = (Raise StopIteration, g')"
    by (simp only: eval_nat_numeral) 
  with m g show ?thesis by blast
qed

text \<open>
  Claim C6. Let \<open>bad\<close> be a call whose name is not a key of the registry, the calls
  \<open>pre\<close> before it being decodable into \<open>insts\<close>. The consumer receives \<open>insts\<close>
  without any error (they are yielded before \<open>bad\<close> is looked at), and the next advance
  raises \<^verbatim>\<open>KeyError\<close> with the missing name. Nothing is yielded for \<open>bad\<close> or for the
  calls \<open>post\<close> after it: the last collaborator call is the failed lookup, and the
  generator is closed.
\<close>

theorem from_response_unknown_name:
  assumes "choices resp = ch # others"
    and "tool_calls (message ch) = pre @ bad # post"
    and "list_all2 (decodes self ctx strict) pre insts"
    and "registry self (name (tc_function bad)) = None"
  shows "\<exists>g. from_response self resp PARALLEL_TOOLS ctx strict = Inr g
           \<and> (\<exists>g'. consume (length pre) g = (insts, None, g'))
           \<and> (\<exists>g'. drain g = (insts, KeyError (name (tc_function bad)), g')
                  \<and> gi_state g' = Closed
                  \<and> gi_trace g' = events_of ctx strict pre @ [Lookup (name (tc_function bad))]
                  \<and> next_gen g' = (Raise StopIteration, g'))"
proof -
  let ?g = "\<lparr>gi_self = self, gi_response = resp, gi_mode = PARALLEL_TOOLS,
          gi_validation_context = ctx, gi_strict = strict,
          gi_state = Created, gi_trace = []\<rparr>"
  have g: "from_response self resp PARALLEL_TOOLS ctx strict = Inr ?g"
    by (simp add: from_response_def)
  have c: "\<exists>g'. consume (length pre) ?g = (insts, None, g')"
  proof (cases "pre = []")
    case True
    with assms(3) show ?thesis by simp
  next
    case False
    have "consume (length pre) ?g = (insts, None, ?g\<lparr>gi_state := Suspended (bad # post),
              gi_trace := gi_trace ?g @ events_of ctx strict pre\<rparr>)"
      by (rule consume_running [OF assms(3) _ _ _ _ _ _ assms(2) False]) (use assms in simp_all)
    then show ?thesis by simp
  qed
  let ?mid = "?g\<lparr>gi_state := Suspended (bad # post),
              gi_trace := gi_trace ?g @ events_of ctx strict pre\<rparr>"
  have "drain ?g = (case drain ?mid of (xs, e, g') \<Rightarrow> (insts @ xs, e, g'))"
    by (rule drain_running [OF assms(3) _ _ _ _ _ _ assms(2)]) (use assms in simp_all)
  moreover have "drain ?mid = ([], KeyError (name (tc_function bad)),
           ?mid\<lparr>gi_state := Closed, gi_trace := gi_trace ?mid @ [Lookup (name (tc_function bad))]\<rparr>)"
    by (rule drain_unknown) (use assms in simp_all)
  ultimately have d: "\<exists>g'. drain ?g = (insts, KeyError (name (tc_function bad)), g')
                  \<and> gi_state g' = Closed
                  \<and> gi_trace g' = events_of ctx strict pre @ [Lookup (name (tc_function bad))]
                  \<and> next_gen g' = (Raise StopIteration, g')"
    by (simp add: next_gen_Closed)
  from g c d show ?thesis by blast
qed

theorem from_response_unknown_name_witness:
  "\<exists>g. from_response sample_base
          (mk_response [mk_call ''Weather'' ''Paris'', mk_call ''Unknown'' ''x'', mk_call ''Weather'' ''Tokyo''])
          PARALLEL_TOOLS None None = Inr g
      \<and> (\<exists>g'. consume 1 g = ([''Paris''], None, g'))
      \<and> (\<exists>g'. drain g = ([''Paris''], KeyError ''Unknown'', g')
             \<and> gi_state g' = Closed
             \<and> gi_trace g' = [Lookup ''Weather'', Validate ''Weather'' ''Paris'' None None,
                               Lookup ''Unknown'']
             \<and> next_gen g' = (Raise StopIteration, g'))"
proof -
  have n: "registry sample_base (name (tc_function (mk_call ''Unknown'' ''x''))) = None"
    by (simp add: mk_call_def sample_base_registry)
  show ?thesis
    using from_response_unknown_name [OF choices_mk_response _ sample_decodes_Paris n,
        where post = "[mk_call ''Weather'' ''Tokyo'']" and ctx = None and strict = None]
    by (auto simp add: events_of_def mk_call_def simp del: consume.simps)
qed

text \<open>
  Claim C7. Let \<open>bad\<close> be a call whose name is registered for the type \<open>model\<close> and
  whose payload the rules of that type reject for the cause \<open>cause\<close>, the calls \<open>pre\<close>
  before it being decodable into \<open>insts\<close>. The consumer receives \<open>insts\<close> without any
  error, and the next advance raises the \<^verbatim>\<open>ValidationError\<close> that carries the name of
  \<open>model\<close> and \<open>cause\<close>. The payload is validated once (the trace ends with that one
  validation), nothing is yielded for \<open>bad\<close> or for the calls after it, and the
  generator is closed. In a registry built by the constructor, \<open>model\<close> is one of the
  supplied types and its name is the name of the call.
\<close>

theorem from_response_validation_error:
  assumes "choices resp = ch # others"
    and "tool_calls (message ch) = pre @ bad # post"
    and "list_all2 (decodes self ctx strict) pre insts"
    and "registry self (name (tc_function bad)) = Some model"
    and "validation_rules model (arguments (tc_function bad)) ctx strict = Inl cause"
  shows "(\<exists>g. from_response self resp PARALLEL_TOOLS ctx strict = Inr g
           \<and> (\<exists>g'. consume (length pre) g = (insts, None, g'))
           \<and> (\<exists>g'. drain g = (insts, ValidationError (dunder_name model) cause, g')
                  \<and> gi_state g' = Closed
                  \<and> gi_trace g' = events_of ctx strict pre @ events_of ctx strict [bad]
                  \<and> next_gen g' = (Raise StopIteration, g')))
         \<and> (\<forall>ms. ParallelBase_init ms = Inr self \<longrightarrow>
               model \<in> set ms \<and> dunder_name model = name (tc_function bad))"
proof -
  let ?g = "\<lparr>gi_self = self, gi_response = resp, gi_mode = PARALLEL_TOOLS,
          gi_validation_context = ctx, gi_strict = strict,
          gi_state = Created, gi_trace = []\<rparr>"
  have g: "from_response self resp PARALLEL_TOOLS ctx strict = Inr ?g"
    by (simp add: from_response_def)
  have c: "\<exists>g'. consume (length pre) ?g = (insts, None, g')"
  proof (cases "pre = []")
    case True
    with assms(3) show ?thesis by simp
  next
    case False
    have "consume (length pre) ?g = (insts, None, ?g\<lparr>gi_state := Suspended (bad # post),
              gi_trace := gi_trace ?g @ events_of ctx strict pre\<rparr>)"
      by (rule consume_running [OF assms(3) _ _ _ _ _ _ assms(2) False]) (use assms in simp_all)
    then show ?thesis by simp
  qed
  let ?mid = "?g\<lparr>gi_state := Suspended (bad # post),
              gi_trace := gi_trace ?g @ events_of ctx strict pre\<rparr>"
  have "drain ?g = (case drain ?mid of (xs, e, g') \<Rightarrow> (insts @ xs, e, g'))"
    by (rule drain_running [OF assms(3) _ _ _ _ _ _ assms(2)]) (use assms in simp_all)
  moreover have "drain ?mid = ([], ValidationError (dunder_name model) cause,
           ?mid\<lparr>gi_state := Closed,
             gi_trace := gi_trace ?mid @ events_of (gi_validation_context ?mid) (gi_strict ?mid) [bad]\<rparr>)"
    by (rule drain_invalid [where model = model])
       (use assms in \<open>simp_all add: model_validate_json_def\<close>)
  ultimately have d: "\<exists>g'. drain ?g = (insts, ValidationError (dunder_name model) cause, g')
                  \<and> gi_state g' = Closed
                  \<and> gi_trace g' = events_of ctx strict pre @ events_of ctx strict [bad]
                  \<and> next_gen g' = (Raise StopIteration, g')"
    by (simp add: next_gen_Closed)
  have n: "\<forall>ms. ParallelBase_init ms = Inr self \<longrightarrow>
               model \<in> set ms \<and> dunder_name model = name (tc_function bad)"
  proof (intro allI impI)
    fix ms assume "ParallelBase_init ms = Inr self"
    then have "registry self = name_dict ms" by (auto dest: ParallelBase_init_Inr)
    with assms(4) show "model \<in> set ms \<and> dunder_name model = name (tc_function bad)"
      by (auto dest: name_dict_Some_name)
  qed
  from g c d n show ?thesis by blast
qed

theorem from_response_validation_error_witness:
  "(\<exists>g. from_response sample_base
          (mk_response [mk_call ''Weather'' ''Paris'', mk_call ''GoogleSearch'' ''{}'', mk_call ''Weather'' ''Tokyo''])
          PARALLEL_TOOLS None (Some True) = Inr g
      \<and> (\<exists>g'. consume 1 g = ([''Paris''], None, g'))
      \<and> (\<exists>g'. drain g = ([''Paris''], ValidationError ''GoogleSearch'' ''query: Field required'', g')
             \<and> gi_state g' = Closed
             \<and> gi_trace g' = [Lookup ''Weather'', Validate ''Weather'' ''Paris'' None (Some True),
                               Lookup ''GoogleSearch'', Validate ''GoogleSearch'' ''{}'' None (Some True)]
             \<and> next_gen g' = (Raise StopIteration, g')))
   \<and> ParallelBase_init [Weather, GoogleSearch] = Inr sample_base
   \<and> GoogleSearch \<in> set [Weather, GoogleSearch] \<and> dunder_name GoogleSearch = ''GoogleSearch''"
proof -
  have r: "registry sample_base (name (tc_function (mk_call ''GoogleSearch'' ''{}''))) = Some GoogleSearch"
    by (simp add: mk_call_def sample_base_registry)
  have v: "validation_rules GoogleSearch (arguments (tc_function (mk_call ''GoogleSearch'' ''{}'')))
             None (Some True) = Inl ''query: Field required''"
    by (simp add: mk_call_def GoogleSearch_def)
  note t = from_response_validation_error [OF choices_mk_response _ sample_decodes_Paris r v,
        where post = "[mk_call ''Weather'' ''Tokyo'']"]
  have "dunder_name GoogleSearch = ''GoogleSearch''" by (simp add: GoogleSearch_def)
  with t sample_base_init show ?thesis
    by (auto simp add: events_of_def mk_call_def simp del: consume.simps)
qed




end
